theory Spec2Isabelle
  imports Main "HOL-Library.FSet" "HOL-Library.List_Lexorder" "HOL-Library.Word" "HOL-Library.Multiset"
begin

section \<open>Data model of the B-tree validation index\<close>

text \<open>
  The index of \<^verbatim>\<open>b_tree_index.cpp\<close> and \<^verbatim>\<open>b_tree_nodes.cpp\<close> is modelled as follows.

  \<^item> A key (\<^verbatim>\<open>std::vector<AllTypeVariant>\<close>) of the left-hand side is a value of a linear
    order \<open>'k\<close>; the nodes only ever compare keys with \<^verbatim>\<open><\<close>, \<^verbatim>\<open>></\<close> and \<^verbatim>\<open>==\<close>.
    The examples use \<open>int list\<close> with the lexicographic order of vectors.
    A right-hand side key is a list \<open>'v list\<close>, of which the code reads element 0.
  \<^item> A \<^verbatim>\<open>BTreeValue\<close> is a record. \<^verbatim>\<open>ChunkOffset\<close> is a 32-bit unsigned integer, a
    \<open>32 word\<close>; the \<^verbatim>\<open>int\<close> fields are \<open>int\<close> (signed overflow is undefined in the source).
  \<^item> Entries hold a \<^verbatim>\<open>shared_ptr<BTreeValue>\<close> that the index mutates in place. The model
    keeps every \<^verbatim>\<open>BTreeValue\<close> in a store \<open>heap\<close> addressed by natural numbers; an entry
    is a pair of a key and an address, and \<^verbatim>\<open>make_shared\<close> takes the address \<open>next_addr\<close>.
    The source never stores a null value pointer, so its null checks have no branch here.
  \<^item> A node is a value of the datatype \<open>BTreeNode\<close>: each node is owned by exactly one
    \<^verbatim>\<open>children\<close> vector (or is the root), so the tree is a tree of values. The minimum
    degree \<^verbatim>\<open>t\<close> is 3 in every node (\<^verbatim>\<open>int t = 3\<close> in the constructor, inherited by
    every split), the constant \<open>btree_t\<close>.
  \<^item> The weak pointers \<^verbatim>\<open>left_neighbor\<close> and \<^verbatim>\<open>right_neighbor\<close> of the leaves are not
    stored. No node is ever freed, a split puts the new leaf directly to the right of the
    split one, and \<^verbatim>\<open>_link_leaf_neighbors\<close> runs after every insertion and removal and
    links the leaves in the order in which \<open>collect_leaves\<close> lists them; so the right
    neighbour of the \<open>k\<close>-th leaf of that list is its \<open>(k+1)\<close>-th leaf and the left
    neighbour its \<open>(k-1)\<close>-th, and \<^verbatim>\<open>find_leaf\<close> returns the index \<open>k\<close> of the leaf it
    reaches.
  \<^item> Reading \<^verbatim>\<open>children[i]\<close> beyond the vector is undefined in the source. The model
    stops there (search finds nothing, insertion and removal leave the node as it is);
    \<open>children_ok\<close> is the condition under which this never happens.
\<close>

datatype DependencyType = FD | OD

record MetadataDeltas =
  flag_delta :: int
  local_violation_count_delta :: int

definition total_delta :: "MetadataDeltas \<Rightarrow> int" where
  "total_delta d = flag_delta d + local_violation_count_delta d"

definition no_deltas :: MetadataDeltas where
  "no_deltas = \<lparr>flag_delta = 0, local_violation_count_delta = 0\<rparr>"

record 'v BTreeValue =
  start_index :: "32 word"
  count :: "32 word"
  rhs_values :: "'v fset"
  min_rhs :: "'v option"
  max_rhs :: "'v option"
  right_neighbor_flag :: int
  right_neighbor_flag_contribution :: int
  local_violation_count_contribution :: int

text \<open>\<^verbatim>\<open>BTreeValue::local_violation_count(DependencyType)\<close>: the same for both kinds.\<close>

definition local_violation_count :: "'v BTreeValue \<Rightarrow> DependencyType \<Rightarrow> int" where
  "local_violation_count v dep_type =
     (if rhs_values v = {||} then 0 else int (fcard (rhs_values v)) - 1)"

text \<open>A value as \<^verbatim>\<open>make_shared<BTreeValue>()\<close> followed by the assignments of
  \<^verbatim>\<open>start_index\<close> and \<^verbatim>\<open>count\<close> leaves it.\<close>

definition new_value :: "32 word \<Rightarrow> 32 word \<Rightarrow> 'v BTreeValue" where
  "new_value si c =
     \<lparr>start_index = si, count = c, rhs_values = {||}, min_rhs = None, max_rhs = None,
      right_neighbor_flag = 0, right_neighbor_flag_contribution = 0,
      local_violation_count_contribution = 0\<rparr>"

datatype 'k BTreeNode =
  BTreeNode (leaf: bool) (entries: "('k \<times> nat) list") (children: "'k BTreeNode list")

definition btree_t :: nat where
  "btree_t = 3"

section \<open>Node operations\<close>

text \<open>The scan \<^verbatim>\<open>while (i < entries.size() && key > entries[i].key) i++\<close> of
  \<^verbatim>\<open>search\<close>, \<^verbatim>\<open>find_leaf\<close> and \<^verbatim>\<open>_remove_entry\<close>.\<close>

fun scan_greater :: "'k::linorder \<Rightarrow> ('k \<times> nat) list \<Rightarrow> nat" where
  "scan_greater key [] = 0"
| "scan_greater key (e # es) = (if key > fst e then Suc (scan_greater key es) else 0)"

text \<open>The scan from the right of \<^verbatim>\<open>insert_non_full\<close>:
  \<^verbatim>\<open>i = size - 1; while (i >= 0 && key < entries[i].key) i--\<close>; the result is \<open>i + 1\<close>.\<close>

definition scan_less_back :: "'k::linorder \<Rightarrow> ('k \<times> nat) list \<Rightarrow> nat" where
  "scan_less_back key es = length es - length (takeWhile (\<lambda>e. key < fst e) (rev es))"

fun node_size :: "'k BTreeNode \<Rightarrow> nat" where
  "node_size (BTreeNode lf es cs) = Suc (sum_list (map node_size cs))"

lemma sum_list_take_le: "sum_list (map f (take n xs)) \<le> sum_list (map (f :: 'a \<Rightarrow> nat) xs)"
proof -
  have "sum_list (map f xs) = sum_list (map f (take n xs)) + sum_list (map f (drop n xs))"
    by (metis append_take_drop_id map_append sum_list_append)
  then show ?thesis by simp
qed

lemma sum_list_drop_le: "sum_list (map f (drop n xs)) \<le> sum_list (map (f :: 'a \<Rightarrow> nat) xs)"
proof -
  have "sum_list (map f xs) = sum_list (map f (take n xs)) + sum_list (map f (drop n xs))"
    by (metis append_take_drop_id map_append sum_list_append)
  then show ?thesis by simp
qed

lemma node_size_nth: "i < length cs \<Longrightarrow> node_size (cs ! i) < node_size (BTreeNode lf es cs)"
proof -
  assume "i < length cs"
  then have "cs ! i \<in> set cs" by simp
  then have "node_size (cs ! i) \<le> sum_list (map node_size cs)"
    by (simp add: member_le_sum_list)
  then show ?thesis by simp
qed

function search :: "'k::linorder \<Rightarrow> 'k BTreeNode \<Rightarrow> nat option" where
  "search key (BTreeNode lf es cs) =
     (let i = scan_greater key es in
      if i < length es \<and> key = fst (es ! i) then Some (snd (es ! i))
      else if lf then None
      else if i < length cs then search key (cs ! i)
      else None)"
  by pat_completeness auto
termination
  by (relation "measure (\<lambda>(key, n). node_size n)") (auto simp: node_size_nth simp del: node_size.simps)

text \<open>\<^verbatim>\<open>find_leaf\<close> returns the leaf it reaches, here the index of that leaf in
  \<open>collect_leaves\<close>, and the position of the key in the leaf, \<open>None\<close> for \<^verbatim>\<open>-1\<close>.\<close>

fun collect_leaves :: "'k BTreeNode \<Rightarrow> 'k BTreeNode list" where
  "collect_leaves (BTreeNode lf es cs) =
     (if lf then [BTreeNode lf es cs] else concat (map collect_leaves cs))"

definition leaf_count :: "'k BTreeNode \<Rightarrow> nat" where
  "leaf_count n = length (collect_leaves n)"

function find_leaf :: "'k::linorder \<Rightarrow> 'k BTreeNode \<Rightarrow> nat \<times> nat option" where
  "find_leaf key (BTreeNode lf es cs) =
     (let i = scan_greater key es in
      if lf then (0, if i < length es \<and> key = fst (es ! i) then Some i else None)
      else if i < length cs then
        (case find_leaf key (cs ! i) of
           (k, position) \<Rightarrow> (sum_list (map leaf_count (take i cs)) + k, position))
      else (0, None))"
  by pat_completeness auto
termination
  by (relation "measure (\<lambda>(key, n). node_size n)") (auto simp: node_size_nth simp del: node_size.simps)

text \<open>\<^verbatim>\<open>split_child(i, y)\<close> is only ever called with \<open>y = children[i]\<close>. The parent gets the
  median entry at \<open>i\<close> and the new node \<open>z\<close> at \<open>i + 1\<close>; \<open>y\<close> keeps its first \<open>t - 1\<close>
  entries and, when it is no leaf, its first \<open>t\<close> children.\<close>

definition split_left :: "'k BTreeNode \<Rightarrow> 'k BTreeNode" where
  "split_left y =
     BTreeNode (leaf y) (take (btree_t - 1) (entries y))
       (if leaf y then children y else take btree_t (children y))"

definition split_right :: "'k BTreeNode \<Rightarrow> 'k BTreeNode" where
  "split_right y =
     BTreeNode (leaf y) (drop btree_t (entries y))
       (if leaf y then [] else drop btree_t (children y))"

definition split_child :: "nat \<Rightarrow> 'k BTreeNode \<Rightarrow> 'k BTreeNode" where
  "split_child i n =
     (let y = children n ! i;
          z = split_right y;
          mid_entry = entries y ! (btree_t - 1)
      in BTreeNode (leaf n)
           (take i (entries n) @ [mid_entry] @ drop i (entries n))
           (take i (children n) @ [split_left y, z] @ drop (Suc i) (children n)))"

lemma node_size_split_left: "node_size (split_left y) \<le> node_size y"
  by (cases y) (simp add: split_left_def sum_list_take_le)

lemma node_size_split_right: "node_size (split_right y) \<le> node_size y"
  by (cases y) (simp add: split_right_def sum_list_drop_le)

function insert_non_full :: "'k::linorder \<Rightarrow> nat \<Rightarrow> 'k BTreeNode \<Rightarrow> 'k BTreeNode" where
  "insert_non_full key val (BTreeNode lf es cs) =
     (let i = scan_less_back key es in
      if lf then BTreeNode lf (take i es @ [(key, val)] @ drop i es) cs
      else if i < length cs then
        (if length (entries (cs ! i)) = 2 * btree_t - 1 then
           (let mid_entry = entries (cs ! i) ! (btree_t - 1);
                es' = take i es @ [mid_entry] @ drop i es
            in if key > fst mid_entry
               then BTreeNode lf es'
                      (take i cs @ [split_left (cs ! i), insert_non_full key val (split_right (cs ! i))]
                         @ drop (Suc i) cs)
               else BTreeNode lf es'
                      (take i cs @ [insert_non_full key val (split_left (cs ! i)), split_right (cs ! i)]
                         @ drop (Suc i) cs))
         else BTreeNode lf es (cs[i := insert_non_full key val (cs ! i)]))
      else BTreeNode lf es cs)"
  by pat_completeness auto
termination
proof (relation "measure (\<lambda>(key, val, n). node_size n)", goal_cases)
  case 1
  show ?case by simp
next
  case (2 key val lf es cs i mid es')
  then show ?case
    using node_size_split_right [of "cs ! scan_less_back key es"]
      node_size_nth [of "scan_less_back key es" cs lf es] by simp
next
  case (3 key val lf es cs i mid es')
  then show ?case
    using node_size_split_left [of "cs ! scan_less_back key es"]
      node_size_nth [of "scan_less_back key es" cs lf es] by simp
next
  case (4 key val lf es cs i)
  then show ?case
    using node_size_nth [of "scan_less_back key es" cs lf es] by simp
qed

text \<open>\<^verbatim>\<open>BTreeIndex::_insert\<close>: a full root is split under a new root first.\<close>

definition btree_insert :: "'k::linorder \<Rightarrow> nat \<Rightarrow> 'k BTreeNode \<Rightarrow> 'k BTreeNode" where
  "btree_insert key val r =
     (if length (entries r) = 2 * btree_t - 1 then
        (let s = split_child 0 (BTreeNode False [] [r]);
             i = (if fst (entries s ! 0) < key then 1 else 0)
         in BTreeNode False (entries s)
              ((children s)[i := insert_non_full key val (children s ! i)]))
      else insert_non_full key val r)"

text \<open>\<^verbatim>\<open>BTreeIndex::_remove_entry\<close>: the first entry of the node with the key is erased;
  otherwise the search goes on in the child the scan selects. Nothing is rebalanced.\<close>

fun erase_key :: "'k \<Rightarrow> ('k \<times> nat) list \<Rightarrow> ('k \<times> nat) list" where
  "erase_key key [] = []"
| "erase_key key (e # es) = (if fst e = key then es else e # erase_key key es)"

function remove_from_node :: "'k::linorder \<Rightarrow> 'k BTreeNode \<Rightarrow> 'k BTreeNode" where
  "remove_from_node key (BTreeNode lf es cs) =
     (if key \<in> fst ` set es then BTreeNode lf (erase_key key es) cs
      else if \<not> lf then
        (let i = scan_greater key es in
         if i < length cs then BTreeNode lf es (cs[i := remove_from_node key (cs ! i)])
         else BTreeNode lf es cs)
      else BTreeNode lf es cs)"
  by pat_completeness auto
termination
  by (relation "measure (\<lambda>(key, n). node_size n)") (auto simp: node_size_nth simp del: node_size.simps)

text \<open>The entries of the whole tree, as \<^verbatim>\<open>key_count\<close> visits them: the entries of a
  node, then its children.\<close>

fun all_entries :: "'k BTreeNode \<Rightarrow> ('k \<times> nat) list" where
  "all_entries (BTreeNode lf es cs) =
     es @ (if lf then [] else concat (map all_entries cs))"


text \<open>The keys met by walking the leaves from the leftmost one along the
  \<^verbatim>\<open>right_neighbor\<close> links.\<close>

definition leaf_walk :: "'k BTreeNode \<Rightarrow> 'k list" where
  "leaf_walk r = concat (map (\<lambda>l. map fst (entries l)) (collect_leaves r))"

section \<open>The index\<close>

record ('k, 'v) BTreeIndex =
  root :: "'k BTreeNode"
  heap :: "nat \<Rightarrow> 'v BTreeValue"
  next_addr :: nat
  global_violation_count :: int

text \<open>\<^verbatim>\<open>make_shared<BTreeValue>\<close> and \<^verbatim>\<open>_insert(key, value)\<close>.\<close>

definition insert_value :: "'k::linorder \<Rightarrow> 'v BTreeValue \<Rightarrow> ('k, 'v) BTreeIndex \<Rightarrow> ('k, 'v) BTreeIndex" where
  "insert_value key v s =
     s\<lparr>root := btree_insert key (next_addr s) (root s),
       heap := (heap s)(next_addr s := v),
       next_addr := Suc (next_addr s)\<rparr>"

definition empty_index :: "('k, 'v) BTreeIndex" where
  "empty_index =
     \<lparr>root = BTreeNode True [] [], heap = (\<lambda>a. new_value 0 0), next_addr = 0,
      global_violation_count = 0\<rparr>"

text \<open>The constructor. A row is the key made of its segments' values, \<open>None\<close> when one of
  them is null; such rows go to \<^verbatim>\<open>_null_positions\<close> and are not indexed. The loop
  over the sorted rows counts each run of equal keys and inserts it when the next key
  differs; \<open>pos\<close> is \<^verbatim>\<open>_chunk_offsets.size()\<close>.\<close>

fun build_groups ::
  "'k::linorder list \<Rightarrow> 'k \<Rightarrow> 32 word \<Rightarrow> 32 word \<Rightarrow> 32 word \<Rightarrow> ('k, 'v) BTreeIndex \<Rightarrow> ('k, 'v) BTreeIndex" where
  "build_groups [] cur start cnt pos s = insert_value cur (new_value start cnt) s"
| "build_groups (key # keys) cur start cnt pos s =
     (if key \<noteq> cur
      then build_groups keys key pos 1 (pos + 1) (insert_value cur (new_value start cnt) s)
      else build_groups keys cur start (cnt + 1) (pos + 1) s)"

definition new_index :: "'k::linorder option list \<Rightarrow> ('k, 'v) BTreeIndex" where
  "new_index rows =
     (case sort (concat (map (\<lambda>r. case r of None \<Rightarrow> [] | Some key \<Rightarrow> [key]) rows)) of
        [] \<Rightarrow> empty_index
      | key # keys \<Rightarrow> build_groups keys key 0 1 1 empty_index)"

definition insert_key :: "'k::linorder \<Rightarrow> ('k, 'v) BTreeIndex \<Rightarrow> bool \<times> ('k, 'v) BTreeIndex" where
  "insert_key key s =
     (case search key (root s) of
        Some a \<Rightarrow> (False, s\<lparr>heap := (heap s)(a := (heap s a)\<lparr>count := count (heap s a) + 1\<rparr>)\<rparr>)
      | None \<Rightarrow> (True, insert_value key (new_value 0 1) s))"

definition remove_key :: "'k::linorder \<Rightarrow> ('k, 'v) BTreeIndex \<Rightarrow> bool \<times> ('k, 'v) BTreeIndex" where
  "remove_key key s =
     (case search key (root s) of
        None \<Rightarrow> (False, s)
      | Some a \<Rightarrow>
          if count (heap s a) > 1
          then (False, s\<lparr>heap := (heap s)(a := (heap s a)\<lparr>count := count (heap s a) - 1\<rparr>)\<rparr>)
          else (True, s\<lparr>root := remove_from_node key (root s)\<rparr>))"


definition set_right_neighbor_flag :: "'k::linorder \<Rightarrow> int \<Rightarrow> ('k, 'v) BTreeIndex \<Rightarrow> ('k, 'v) BTreeIndex" where
  "set_right_neighbor_flag key flag s =
     (case search key (root s) of
        None \<Rightarrow> s
      | Some a \<Rightarrow>
          s\<lparr>heap := (heap s)(a := (heap s a)\<lparr>right_neighbor_flag := flag,
                                              right_neighbor_flag_contribution := flag\<rparr>),
            global_violation_count :=
              global_violation_count s - right_neighbor_flag_contribution (heap s a) + flag\<rparr>)"

definition recompute_local_violation_delta ::
  "'k::linorder \<Rightarrow> DependencyType \<Rightarrow> ('k, 'v) BTreeIndex \<Rightarrow> ('k, 'v) BTreeIndex" where
  "recompute_local_violation_delta key dep_type s =
     (case search key (root s) of
        None \<Rightarrow> s
      | Some a \<Rightarrow>
          (let current_local = local_violation_count (heap s a) dep_type
           in s\<lparr>heap := (heap s)(a := (heap s a)\<lparr>local_violation_count_contribution := current_local\<rparr>),
                global_violation_count :=
                  global_violation_count s - local_violation_count_contribution (heap s a)
                    + current_local\<rparr>))"

definition compute_od_boundary_flag :: "'v::linorder BTreeValue \<Rightarrow> 'v BTreeValue \<Rightarrow> int" where
  "compute_od_boundary_flag current_value right_value =
     (case (max_rhs current_value, min_rhs right_value) of
        (Some mx, Some mn) \<Rightarrow> if mx > mn then 1 else 0
      | _ \<Rightarrow> 0)"

section \<open>The validator\<close>

text \<open>Writes through a \<^verbatim>\<open>shared_ptr<BTreeValue>\<close>: both flag fields are always set
  together, and the local contribution on its own.\<close>

definition set_flag :: "(nat \<Rightarrow> 'v BTreeValue) \<Rightarrow> nat \<Rightarrow> int \<Rightarrow> (nat \<Rightarrow> 'v BTreeValue)" where
  "set_flag h a f = h(a := (h a)\<lparr>right_neighbor_flag := f, right_neighbor_flag_contribution := f\<rparr>)"

definition set_local :: "(nat \<Rightarrow> 'v BTreeValue) \<Rightarrow> nat \<Rightarrow> int \<Rightarrow> (nat \<Rightarrow> 'v BTreeValue)" where
  "set_local h a n = h(a := (h a)\<lparr>local_violation_count_contribution := n\<rparr>)"

text \<open>The entry the validator takes for the right neighbour of position \<open>position\<close> of the
  \<open>k\<close>-th leaf: the next entry of the leaf, else the first entry of the right neighbour
  leaf when that leaf exists and is not empty.\<close>

definition right_entry :: "'k BTreeNode list \<Rightarrow> nat \<Rightarrow> nat \<Rightarrow> nat option" where
  "right_entry leaves k position =
     (if position + 1 < length (entries (leaves ! k))
      then Some (snd (entries (leaves ! k) ! (position + 1)))
      else if k + 1 < length leaves \<and> entries (leaves ! (k + 1)) \<noteq> []
      then Some (snd (entries (leaves ! (k + 1)) ! 0))
      else None)"

text \<open>The entry taken for the predecessor: the previous entry of the leaf, else the last
  entry of the left neighbour leaf when that leaf exists and is not empty.\<close>

definition left_entry :: "'k BTreeNode list \<Rightarrow> nat \<Rightarrow> nat \<Rightarrow> nat option" where
  "left_entry leaves k position =
     (if position > 0
      then Some (snd (entries (leaves ! k) ! (position - 1)))
      else if k > 0 \<and> entries (leaves ! (k - 1)) \<noteq> []
      then Some (snd (last (entries (leaves ! (k - 1)))))
      else None)"

definition flag_against :: "(nat \<Rightarrow> 'v::linorder BTreeValue) \<Rightarrow> nat \<Rightarrow> nat option \<Rightarrow> int" where
  "flag_against h a right =
     (case right of None \<Rightarrow> 0 | Some b \<Rightarrow> compute_od_boundary_flag (h a) (h b))"

text \<open>The first step of the insert: a key that \<^verbatim>\<open>search\<close> does not find gets a new
  value and a new entry; for OD the count of a key that is found goes up by one.\<close>

definition ensure_key :: "'k::linorder \<Rightarrow> DependencyType \<Rightarrow> ('k, 'v) BTreeIndex \<Rightarrow> ('k, 'v) BTreeIndex" where
  "ensure_key left_key dep_type s0 =
     (case search left_key (root s0) of
        None \<Rightarrow> insert_value left_key (new_value 0 (if dep_type = OD then 1 else 0)) s0
      | Some e \<Rightarrow>
          if dep_type = OD
          then s0\<lparr>heap := (heap s0)(e := (heap s0 e)\<lparr>count := count (heap s0 e) + 1\<rparr>)\<rparr>
          else s0)"

text \<open>The FD branch of the insert on the value at address \<open>a\<close>.\<close>

definition insert_fd :: "nat \<Rightarrow> 'v list \<Rightarrow> ('k, 'v) BTreeIndex \<Rightarrow> MetadataDeltas \<times> ('k, 'v) BTreeIndex" where
  "insert_fd a right_key s =
     (let old_flag_contribution = right_neighbor_flag_contribution (heap s a);
          old_local_contribution = local_violation_count_contribution (heap s a);
          h1 = (if right_key \<noteq> []
                then (heap s)(a := (heap s a)
                       \<lparr>rhs_values := finsert (hd right_key) (rhs_values (heap s a))\<rparr>)
                else heap s);
          new_local = local_violation_count (h1 a) FD;
          h2 = set_local h1 a new_local;
          flag_d = (if old_flag_contribution \<noteq> 0 then - old_flag_contribution else 0);
          h3 = (if old_flag_contribution \<noteq> 0 then set_flag h2 a 0 else h2);
          deltas = \<lparr>flag_delta = flag_d,
                    local_violation_count_delta = new_local - old_local_contribution\<rparr>
      in (deltas, s\<lparr>heap := h3,
                    global_violation_count := global_violation_count s + total_delta deltas\<rparr>))"

text \<open>The OD branch of the insert: the value joins the set and moves the minimum and the
  maximum; the flag of the entry is set against its right neighbour, then the flag of
  its predecessor against the entry.\<close>

definition track_rhs :: "'v::linorder \<Rightarrow> 'v BTreeValue \<Rightarrow> 'v BTreeValue" where
  "track_rhs rhs v =
     v\<lparr>rhs_values := finsert rhs (rhs_values v),
       min_rhs := (case min_rhs v of None \<Rightarrow> Some rhs
                   | Some m \<Rightarrow> if rhs < m then Some rhs else Some m),
       max_rhs := (case max_rhs v of None \<Rightarrow> Some rhs
                   | Some m \<Rightarrow> if rhs > m then Some rhs else Some m)\<rparr>"

definition insert_od ::
  "'k BTreeNode list \<Rightarrow> nat \<Rightarrow> nat \<Rightarrow> nat \<Rightarrow> 'v::linorder list \<Rightarrow> ('k, 'v) BTreeIndex
     \<Rightarrow> MetadataDeltas \<times> ('k, 'v) BTreeIndex" where
  "insert_od leaves k position a right_key s =
     (let old_flag_contribution = right_neighbor_flag_contribution (heap s a);
          old_local_contribution = local_violation_count_contribution (heap s a);
          h1 = (if right_key \<noteq> []
                then (heap s)(a := track_rhs (hd right_key) (heap s a))
                else heap s);
          new_local = local_violation_count (h1 a) OD;
          h2 = set_local h1 a new_local;
          new_flag = flag_against h2 a (right_entry leaves k position);
          h3 = set_flag h2 a new_flag;
          flag_d = new_flag - old_flag_contribution;
          h4 = (case left_entry leaves k position of
                  None \<Rightarrow> h3
                | Some p \<Rightarrow> set_flag h3 p (compute_od_boundary_flag (h3 p) (h3 a)));
          flag_d' = (case left_entry leaves k position of
                       None \<Rightarrow> flag_d
                     | Some p \<Rightarrow>
                         flag_d + (compute_od_boundary_flag (h3 p) (h3 a)
                                     - right_neighbor_flag_contribution (h3 p)));
          deltas = \<lparr>flag_delta = flag_d',
                    local_violation_count_delta = new_local - old_local_contribution\<rparr>
      in (deltas, s\<lparr>heap := h4,
                    global_violation_count := global_violation_count s + total_delta deltas\<rparr>))"

definition insert_entry_for_validation ::
  "'k::linorder \<Rightarrow> 'v::linorder list \<Rightarrow> DependencyType \<Rightarrow> ('k, 'v) BTreeIndex
     \<Rightarrow> MetadataDeltas \<times> ('k, 'v) BTreeIndex" where
  "insert_entry_for_validation left_key right_key dep_type s0 =
     (let s = ensure_key left_key dep_type s0
      in case find_leaf left_key (root s) of
           (k, None) \<Rightarrow> (no_deltas, s)
         | (k, Some position) \<Rightarrow>
             (let leaves = collect_leaves (root s);
                  a = snd (entries (leaves ! k) ! position)
              in if dep_type = FD then insert_fd a right_key s
                 else insert_od leaves k position a right_key s))"

text \<open>The loop of the delete that recomputes \<^verbatim>\<open>min_rhs\<close> and \<^verbatim>\<open>max_rhs\<close> from the
  remaining values; the set is gone through in ascending order here (the result does not
  depend on the order).\<close>

definition recompute_step :: "'v::linorder \<Rightarrow> 'v option \<times> 'v option \<Rightarrow> 'v option \<times> 'v option" where
  "recompute_step rhs mm =
     ((case fst mm of None \<Rightarrow> Some rhs | Some m \<Rightarrow> if rhs < m then Some rhs else Some m),
      (case snd mm of None \<Rightarrow> Some rhs | Some m \<Rightarrow> if rhs > m then Some rhs else Some m))"

definition recompute_min_max :: "'v::linorder BTreeValue \<Rightarrow> 'v BTreeValue" where
  "recompute_min_max v =
     (let mm = fold recompute_step (sorted_list_of_fset (rhs_values v)) (None, None)
      in v\<lparr>min_rhs := fst mm, max_rhs := snd mm\<rparr>)"

text \<open>\<^verbatim>\<open>rhs_values.erase(right_key[0])\<close>, the first statement of both branches of the
  delete.\<close>

definition erase_rhs :: "nat \<Rightarrow> 'v list \<Rightarrow> (nat \<Rightarrow> 'v BTreeValue) \<Rightarrow> (nat \<Rightarrow> 'v BTreeValue)" where
  "erase_rhs a right_key h =
     (if right_key \<noteq> []
      then h(a := (h a)\<lparr>rhs_values := rhs_values (h a) |-| {|hd right_key|}\<rparr>)
      else h)"

definition delete_fd ::
  "nat \<Rightarrow> 'k::linorder \<Rightarrow> 'v list \<Rightarrow> ('k, 'v) BTreeIndex \<Rightarrow> MetadataDeltas \<times> ('k, 'v) BTreeIndex" where
  "delete_fd a left_key right_key s =
     (let old_flag_contribution = right_neighbor_flag_contribution (heap s a);
          old_local_contribution = local_violation_count_contribution (heap s a);
          h1 = erase_rhs a right_key (heap s)
      in if rhs_values (h1 a) = {||} then
           (let deltas = \<lparr>flag_delta = - old_flag_contribution,
                           local_violation_count_delta = - old_local_contribution\<rparr>
            in (deltas, s\<lparr>root := remove_from_node left_key (root s), heap := h1,
                          global_violation_count := global_violation_count s + total_delta deltas\<rparr>))
         else
           (let new_local = local_violation_count (h1 a) FD;
                h2 = set_local h1 a new_local;
                deltas = \<lparr>flag_delta = 0,
                          local_violation_count_delta = new_local - old_local_contribution\<rparr>
            in (deltas, s\<lparr>heap := h2,
                          global_violation_count := global_violation_count s + total_delta deltas\<rparr>)))"

text \<open>The OD branch of the delete. When the set becomes empty, the flag of the last
  entry of the left neighbour leaf is recomputed if the entry is the first of its leaf,
  and the flag of the previous entry if the entry is the last of its leaf and not the
  first; then the entry is removed. Otherwise minimum, maximum, flag and local count of
  the entry are recomputed.\<close>

definition delete_od ::
  "'k BTreeNode list \<Rightarrow> nat \<Rightarrow> nat \<Rightarrow> nat \<Rightarrow> 'k::linorder \<Rightarrow> 'v::linorder list \<Rightarrow> ('k, 'v) BTreeIndex
     \<Rightarrow> MetadataDeltas \<times> ('k, 'v) BTreeIndex" where
  "delete_od leaves k position a left_key right_key s =
     (let lf = leaves ! k;
          old_flag_contribution = right_neighbor_flag_contribution (heap s a);
          old_local_contribution = local_violation_count_contribution (heap s a);
          is_smallest = (entries lf \<noteq> [] \<and> fst (hd (entries lf)) = left_key);
          is_largest = (entries lf \<noteq> [] \<and> fst (last (entries lf)) = left_key);
          h1 = erase_rhs a right_key (heap s)
      in if rhs_values (h1 a) = {||} then
           (let upd_left = (is_smallest \<and> position = 0 \<and> k > 0 \<and> entries (leaves ! (k - 1)) \<noteq> []);
                pl = snd (last (entries (leaves ! (k - 1))));
                new_left_flag =
                  (if length (entries lf) > 1
                   then compute_od_boundary_flag (h1 pl) (h1 (snd (entries lf ! 1)))
                   else if k + 1 < length leaves \<and> entries (leaves ! (k + 1)) \<noteq> []
                   then compute_od_boundary_flag (h1 pl) (h1 (snd (entries (leaves ! (k + 1)) ! 0)))
                   else 0);
                h2 = (if upd_left then set_flag h1 pl new_left_flag else h1);
                d1 = (if upd_left then new_left_flag - right_neighbor_flag_contribution (h1 pl) else 0);
                upd_prev = (is_largest \<and> position > 0);
                pp = snd (entries lf ! (position - 1));
                new_prev_flag =
                  (if k + 1 < length leaves \<and> entries (leaves ! (k + 1)) \<noteq> []
                   then compute_od_boundary_flag (h2 pp) (h2 (snd (entries (leaves ! (k + 1)) ! 0)))
                   else 0);
                h3 = (if upd_prev then set_flag h2 pp new_prev_flag else h2);
                d2 = (if upd_prev then d1 + (new_prev_flag - right_neighbor_flag_contribution (h2 pp))
                      else d1);
                deltas = \<lparr>flag_delta = d2 - old_flag_contribution,
                          local_violation_count_delta = - old_local_contribution\<rparr>
            in (deltas, s\<lparr>root := remove_from_node left_key (root s), heap := h3,
                          global_violation_count := global_violation_count s + total_delta deltas\<rparr>))
         else
           (let h2 = h1(a := recompute_min_max (h1 a));
                new_flag = flag_against h2 a (right_entry leaves k position);
                h3 = set_flag h2 a new_flag;
                new_local = local_violation_count (h3 a) OD;
                h4 = set_local h3 a new_local;
                deltas = \<lparr>flag_delta = new_flag - old_flag_contribution,
                          local_violation_count_delta = new_local - old_local_contribution\<rparr>
            in (deltas, s\<lparr>heap := h4,
                          global_violation_count := global_violation_count s + total_delta deltas\<rparr>)))"

definition delete_entry_for_validation ::
  "'k::linorder \<Rightarrow> 'v::linorder list \<Rightarrow> DependencyType \<Rightarrow> ('k, 'v) BTreeIndex
     \<Rightarrow> MetadataDeltas \<times> ('k, 'v) BTreeIndex" where
  "delete_entry_for_validation left_key right_key dep_type s =
     (case find_leaf left_key (root s) of
        (k, None) \<Rightarrow> (no_deltas, s)
      | (k, Some position) \<Rightarrow>
          (let leaves = collect_leaves (root s);
               a = snd (entries (leaves ! k) ! position)
           in if dep_type = FD then delete_fd a left_key right_key s
              else delete_od leaves k position a left_key right_key s))"

definition update_entry_for_validation ::
  "'k::linorder \<Rightarrow> 'v::linorder list \<Rightarrow> 'v list \<Rightarrow> DependencyType \<Rightarrow> ('k, 'v) BTreeIndex
     \<Rightarrow> MetadataDeltas \<times> ('k, 'v) BTreeIndex" where
  "update_entry_for_validation left_key old_right_key new_right_key dep_type s =
     (let (delete_deltas, s1) = delete_entry_for_validation left_key old_right_key dep_type s;
          (insert_deltas, s2) = insert_entry_for_validation left_key new_right_key dep_type s1
      in (\<lparr>flag_delta = flag_delta delete_deltas + flag_delta insert_deltas,
           local_violation_count_delta =
             local_violation_count_delta delete_deltas + local_violation_count_delta insert_deltas\<rparr>,
          s2))"

section \<open>Sequences of public mutations\<close>

datatype ('k, 'v) mutation =
    InsertEntry 'k "'v list" DependencyType
  | DeleteEntry 'k "'v list" DependencyType
  | UpdateEntry 'k "'v list" "'v list" DependencyType
  | SetRightNeighborFlag 'k int
  | RecomputeLocal 'k DependencyType
  | InsertKey 'k
  | RemoveKey 'k

fun apply_mutation :: "('k::linorder, 'v::linorder) mutation \<Rightarrow> ('k, 'v) BTreeIndex \<Rightarrow> ('k, 'v) BTreeIndex" where
  "apply_mutation (InsertEntry l r d) s = snd (insert_entry_for_validation l r d s)"
| "apply_mutation (DeleteEntry l r d) s = snd (delete_entry_for_validation l r d s)"
| "apply_mutation (UpdateEntry l r r' d) s = snd (update_entry_for_validation l r r' d s)"
| "apply_mutation (SetRightNeighborFlag key f) s = set_right_neighbor_flag key f s"
| "apply_mutation (RecomputeLocal key d) s = recompute_local_violation_delta key d s"
| "apply_mutation (InsertKey key) s = snd (insert_key key s)"
| "apply_mutation (RemoveKey key) s = snd (remove_key key s)"

definition run :: "('k::linorder, 'v::linorder) mutation list \<Rightarrow> ('k, 'v) BTreeIndex \<Rightarrow> ('k, 'v) BTreeIndex" where
  "run ms s = fold apply_mutation ms s"

section \<open>Explicit index states\<close>

text \<open>For the scenarios, a store is given by the list of its allocated values, and an
  index by its tree, that list and the counter.\<close>

definition heap_of :: "'v BTreeValue list \<Rightarrow> nat \<Rightarrow> 'v BTreeValue" where
  "heap_of vs a = (if a < length vs then vs ! a else new_value 0 0)"

definition ix :: "'k BTreeNode \<Rightarrow> 'v BTreeValue list \<Rightarrow> int \<Rightarrow> ('k, 'v) BTreeIndex" where
  "ix r vs g = \<lparr>root = r, heap = heap_of vs, next_addr = length vs, global_violation_count = g\<rparr>"

definition bv ::
  "32 word \<Rightarrow> 32 word \<Rightarrow> 'v list \<Rightarrow> 'v option \<Rightarrow> 'v option \<Rightarrow> int \<Rightarrow> int \<Rightarrow> 'v BTreeValue" where
  "bv si c rs mn mx f l =
     \<lparr>start_index = si, count = c, rhs_values = fset_of_list rs, min_rhs = mn, max_rhs = mx,
      right_neighbor_flag = f, right_neighbor_flag_contribution = f,
      local_violation_count_contribution = l\<rparr>"

section \<open>Properties of index states\<close>

text \<open>The local law for one value: the stored local contribution is
  \<open>max(0, |rhs_values| - 1)\<close>; and for the index: every value that an entry of the tree
  points to obeys it.\<close>

definition local_ok :: "'v BTreeValue \<Rightarrow> bool" where
  "local_ok v = (local_violation_count_contribution v = max 0 (int (fcard (rhs_values v)) - 1))"

definition local_law :: "('k, 'v) BTreeIndex \<Rightarrow> bool" where
  "local_law s = list_all (\<lambda>e. local_ok (heap s (snd e))) (all_entries (root s))"

definition cells_ok :: "(nat \<Rightarrow> 'v BTreeValue) \<Rightarrow> bool" where
  "cells_ok h = (\<forall>a. local_ok (h a))"

definition cells_ok_except :: "nat \<Rightarrow> (nat \<Rightarrow> 'v BTreeValue) \<Rightarrow> bool" where
  "cells_ok_except a h = (\<forall>b. b \<noteq> a \<longrightarrow> local_ok (h b))"

text \<open>The sum that the counter is meant to equal: over all entries of the tree, the flag
  contribution plus the local contribution of the value.\<close>

definition contribution_sum :: "('k, 'v) BTreeIndex \<Rightarrow> int" where
  "contribution_sum s =
     sum_list (map (\<lambda>e. right_neighbor_flag_contribution (heap s (snd e))
                          + local_violation_count_contribution (heap s (snd e)))
                (all_entries (root s)))"

definition counter_consistent :: "('k, 'v) BTreeIndex \<Rightarrow> bool" where
  "counter_consistent s = (global_violation_count s = contribution_sum s)"

text \<open>The OD boundary law on the records in sorted order of their keys: for neighbours
  \<open>p\<close>, \<open>q\<close> with \<open>max_rhs p\<close> and \<open>min_rhs q\<close> set, the flag contribution of \<open>p\<close> is 1
  when \<open>max_rhs p > min_rhs q\<close> and 0 otherwise; the last record contributes 0.\<close>

definition pair_ok :: "'v::linorder BTreeValue \<Rightarrow> 'v BTreeValue \<Rightarrow> bool" where
  "pair_ok p q =
     (case (max_rhs p, min_rhs q) of
        (Some mx, Some mn) \<Rightarrow> right_neighbor_flag_contribution p = (if mx > mn then 1 else 0)
      | _ \<Rightarrow> True)"

fun pairs_ok :: "'v::linorder BTreeValue list \<Rightarrow> bool" where
  "pairs_ok [] = True"
| "pairs_ok [p] = (right_neighbor_flag_contribution p = 0)"
| "pairs_ok (p # q # vs) = (pair_ok p q \<and> pairs_ok (q # vs))"

definition boundary_law :: "('k::linorder, 'v::linorder) BTreeIndex \<Rightarrow> bool" where
  "boundary_law s = pairs_ok (map (\<lambda>e. heap s (snd e)) (sort_key fst (all_entries (root s))))"


text \<open>Two values that differ at most in their two flag fields.\<close>

definition same_but_flags :: "'v BTreeValue \<Rightarrow> 'v BTreeValue \<Rightarrow> bool" where
  "same_but_flags v w =
     (w = v\<lparr>right_neighbor_flag := right_neighbor_flag w,
            right_neighbor_flag_contribution := right_neighbor_flag_contribution w\<rparr>)"




text \<open>No key occurs twice in the tree.\<close>

definition keys_distinct :: "('k, 'v) BTreeIndex \<Rightarrow> bool" where
  "keys_distinct s = distinct (map fst (all_entries (root s)))"


section \<open>The order of the keys\<close>

text \<open>A key lies strictly between two bounds, either of which may be missing. The
  children of an inner node with the keys \<open>ks\<close> have the bounds \<open>child_bounds lo hi ks\<close>:
  each child lies between the keys beside it. In an ordered tree the keys of every node
  ascend strictly and lie within the bounds of the node, and an inner node has one child
  more than keys, each ordered within its bounds.\<close>

definition within :: "'k::linorder option \<Rightarrow> 'k option \<Rightarrow> 'k \<Rightarrow> bool" where
  "within lo hi x =
     ((case lo of None \<Rightarrow> True | Some l \<Rightarrow> l < x) \<and> (case hi of None \<Rightarrow> True | Some h \<Rightarrow> x < h))"

fun child_bounds :: "'k option \<Rightarrow> 'k option \<Rightarrow> 'k list \<Rightarrow> ('k option \<times> 'k option) list" where
  "child_bounds lo hi [] = [(lo, hi)]"
| "child_bounds lo hi (k # ks) = (lo, Some k) # child_bounds (Some k) hi ks"

primrec ordered :: "'k::linorder BTreeNode \<Rightarrow> 'k option \<Rightarrow> 'k option \<Rightarrow> bool" where
  "ordered (BTreeNode lf es cs) = (\<lambda>lo hi.
     sorted_wrt (<) (map fst es) \<and> list_all (within lo hi) (map fst es)
     \<and> (\<not> lf \<longrightarrow>
          list_all2 (\<lambda>f b. f (fst b) (snd b)) (map ordered cs) (child_bounds lo hi (map fst es))))"





abbreviation child_ok :: "'k::linorder BTreeNode \<Rightarrow> 'k option \<times> 'k option \<Rightarrow> bool" where
  "child_ok c b \<equiv> ordered c (fst b) (snd b)"


section \<open>Scenarios\<close>


text \<open>Two FD inserts for one key, then \<^verbatim>\<open>remove_key\<close> of that key.\<close>

definition fd_pair_index :: "(int list, int) BTreeIndex" where
  "fd_pair_index = run [InsertEntry [1] [10] FD, InsertEntry [1] [11] FD] empty_index"

text \<open>Three OD inserts with a violation between the keys 1 and 2 only, then the delete of
  the pair of key 2.\<close>

definition od_middle_index :: "(int list, int) BTreeIndex" where
  "od_middle_index =
     run [InsertEntry [1] [10] OD, InsertEntry [2] [5] OD, InsertEntry [3] [20] OD] empty_index"

text \<open>An index built from six rows with the keys 1 to 6.\<close>

definition six_keys_index :: "(int list, int) BTreeIndex" where
  "six_keys_index = new_index (map (\<lambda>i. Some [i]) [1, 2, 3, 4, 5, 6])"





section \<open>The local law\<close>

lemma local_violation_count_max: "local_violation_count v d = max 0 (int (fcard (rhs_values v)) - 1)"
proof (cases "rhs_values v = {||}")
  case True
  then show ?thesis by (simp add: local_violation_count_def fcard_fempty)
next
  case False
  have "fcard (rhs_values v) \<noteq> 0" using False by (simp add: fcard_0_eq)
  then have "1 \<le> int (fcard (rhs_values v))" by linarith
  then show ?thesis using False by (simp add: local_violation_count_def)
qed

lemma cells_ok_set_flag: "cells_ok h \<Longrightarrow> cells_ok (set_flag h a f)"
  by (simp add: cells_ok_def set_flag_def local_ok_def)

lemma cells_ok_count: "cells_ok h \<Longrightarrow> cells_ok (h(a := (h a)\<lparr>count := c\<rparr>))"
  by (simp add: cells_ok_def local_ok_def)

lemma cells_ok_recount:
  "cells_ok h \<Longrightarrow> cells_ok (set_local (h(a := v)) a (local_violation_count v d))"
  by (simp add: cells_ok_def local_ok_def set_local_def local_violation_count_max)

lemma cells_ok_relocal:
  "cells_ok h \<Longrightarrow> cells_ok (set_local h a (local_violation_count (h a) d))"
  by (simp add: cells_ok_def local_ok_def set_local_def local_violation_count_max)

lemma cells_ok_new: "cells_ok h \<Longrightarrow> cells_ok (h(a := new_value si c))"
  by (simp add: cells_ok_def local_ok_def new_value_def)

lemma cells_ok_insert_value: "cells_ok (heap s) \<Longrightarrow> cells_ok (heap (insert_value key (new_value si c) s))"
  by (simp add: insert_value_def cells_ok_new)

lemma cells_ok_ensure_key: "cells_ok (heap s) \<Longrightarrow> cells_ok (heap (ensure_key key d s))"
  by (auto simp: ensure_key_def cells_ok_insert_value cells_ok_count split: option.splits)

lemma cells_ok_insert_fd: "cells_ok (heap s) \<Longrightarrow> cells_ok (heap (snd (insert_fd a r s)))"
  by (auto simp: insert_fd_def Let_def intro!: cells_ok_set_flag cells_ok_recount cells_ok_relocal)

lemma cells_ok_insert_od: "cells_ok (heap s) \<Longrightarrow> cells_ok (heap (snd (insert_od ls k p a r s)))"
  by (auto simp: insert_od_def Let_def split: option.splits intro!: cells_ok_set_flag cells_ok_recount cells_ok_relocal)

lemma cells_ok_insert_entry:
  "cells_ok (heap s) \<Longrightarrow> cells_ok (heap (snd (insert_entry_for_validation l r d s)))"
  by (auto simp: insert_entry_for_validation_def Let_def cells_ok_ensure_key cells_ok_insert_fd
      cells_ok_insert_od split: prod.splits option.splits)

lemma cells_ok_erase_one:
  "cells_ok h \<Longrightarrow> rhs_values (erase_rhs a r h a) \<noteq> {||} \<Longrightarrow>
     cells_ok (set_local (erase_rhs a r h) a (local_violation_count (erase_rhs a r h a) d))"
  by (simp add: cells_ok_def local_ok_def set_local_def local_violation_count_max erase_rhs_def)

lemma cells_ok_erase_empty:
  "cells_ok h \<Longrightarrow> rhs_values (erase_rhs a r h a) = {||} \<Longrightarrow> cells_ok (erase_rhs a r h)"
proof -
  assume ok: "cells_ok h" and e: "rhs_values (erase_rhs a r h a) = {||}"
  have "fcard (rhs_values (h a)) \<le> 1"
  proof (cases "r = []")
    case True
    then show ?thesis using e by (simp add: erase_rhs_def fcard_fempty)
  next
    case False
    then have "rhs_values (h a) |-| {|hd r|} = {||}" using e by (simp add: erase_rhs_def)
    then have "rhs_values (h a) |\<subseteq>| {|hd r|}" by blast
    then have "fcard (rhs_values (h a)) \<le> fcard {|hd r|}" by (rule fcard_mono)
    then show ?thesis by (simp add: fcard_finsert_if fcard_fempty)
  qed
  then have "local_violation_count_contribution (h a) = 0"
    using ok by (simp add: cells_ok_def local_ok_def)
  then show ?thesis
    using ok e by (auto simp: cells_ok_def local_ok_def erase_rhs_def fcard_fempty split: if_splits)
qed

lemma cells_ok_delete_fd: "cells_ok (heap s) \<Longrightarrow> cells_ok (heap (snd (delete_fd a l r s)))"
  by (auto simp: delete_fd_def Let_def cells_ok_erase_one cells_ok_erase_empty)


lemma except_weaken: "cells_ok h \<Longrightarrow> cells_ok_except a h"
  by (simp add: cells_ok_def cells_ok_except_def)

lemma except_upd: "cells_ok_except a h \<Longrightarrow> cells_ok_except a (h(a := v))"
  by (simp add: cells_ok_except_def)

lemma except_set_flag: "cells_ok_except a h \<Longrightarrow> cells_ok_except a (set_flag h b f)"
  by (simp add: cells_ok_except_def set_flag_def local_ok_def)

lemma except_erase: "cells_ok_except a h \<Longrightarrow> cells_ok_except a (erase_rhs a r h)"
  by (simp add: cells_ok_except_def erase_rhs_def)

lemma except_close:
  "cells_ok_except a h \<Longrightarrow> cells_ok (set_local h a (local_violation_count (h a) d))"
  by (simp add: cells_ok_def cells_ok_except_def local_ok_def set_local_def local_violation_count_max)

lemma cells_ok_delete_od: "cells_ok (heap s) \<Longrightarrow> cells_ok (heap (snd (delete_od ls k p a l r s)))"
proof (cases "rhs_values (erase_rhs a r (heap s) a) = {||}")
  case True
  assume "cells_ok (heap s)"
  then have "cells_ok (erase_rhs a r (heap s))" using True by (rule cells_ok_erase_empty)
  then show ?thesis using True
    by (simp add: delete_od_def Let_def cells_ok_set_flag)
next
  case False
  assume "cells_ok (heap s)"
  then have "cells_ok_except a (erase_rhs a r (heap s))"
    by (simp add: except_weaken except_erase)
  then show ?thesis using False
    by (simp add: delete_od_def Let_def except_close except_set_flag except_upd)
qed

lemma cells_ok_delete_entry:
  "cells_ok (heap s) \<Longrightarrow> cells_ok (heap (snd (delete_entry_for_validation l r d s)))"
  by (auto simp: delete_entry_for_validation_def Let_def cells_ok_delete_fd cells_ok_delete_od
      split: prod.splits option.splits)

lemma cells_ok_update_entry:
  "cells_ok (heap s) \<Longrightarrow> cells_ok (heap (snd (update_entry_for_validation l r r' d s)))"
proof -
  assume ok: "cells_ok (heap s)"
  have "snd (update_entry_for_validation l r r' d s) =
        snd (insert_entry_for_validation l r' d (snd (delete_entry_for_validation l r d s)))"
    by (simp add: update_entry_for_validation_def split: prod.splits)
  then show ?thesis using ok by (simp add: cells_ok_insert_entry cells_ok_delete_entry)
qed

lemma cells_ok_set_right_neighbor_flag:
  "cells_ok (heap s) \<Longrightarrow> cells_ok (heap (set_right_neighbor_flag key f s))"
  using cells_ok_set_flag [of "heap s" _ f]
  by (auto simp: set_right_neighbor_flag_def set_flag_def split: option.splits)

lemma cells_ok_recompute_local:
  "cells_ok (heap s) \<Longrightarrow> cells_ok (heap (recompute_local_violation_delta key d s))"
  using cells_ok_relocal [of "heap s" _ d]
  by (auto simp: recompute_local_violation_delta_def set_local_def Let_def split: option.splits)

lemma cells_ok_insert_key: "cells_ok (heap s) \<Longrightarrow> cells_ok (heap (snd (insert_key key s)))"
  by (auto simp: insert_key_def cells_ok_insert_value cells_ok_count split: option.splits)

lemma cells_ok_remove_key: "cells_ok (heap s) \<Longrightarrow> cells_ok (heap (snd (remove_key key s)))"
  by (auto simp: remove_key_def cells_ok_count split: option.splits)

lemma cells_ok_apply: "cells_ok (heap s) \<Longrightarrow> cells_ok (heap (apply_mutation m s))"
  by (cases m)
    (simp_all add: cells_ok_insert_entry cells_ok_delete_entry cells_ok_update_entry
      cells_ok_set_right_neighbor_flag cells_ok_recompute_local cells_ok_insert_key
      cells_ok_remove_key)

lemma cells_ok_run: "cells_ok (heap s) \<Longrightarrow> cells_ok (heap (run ms s))"
  unfolding run_def by (induction ms arbitrary: s) (simp_all add: cells_ok_apply)

lemma cells_ok_build_groups:
  "cells_ok (heap s) \<Longrightarrow> cells_ok (heap (build_groups keys cur start cnt pos s))"
  by (induction keys cur start cnt pos s rule: build_groups.induct)
    (simp_all add: cells_ok_insert_value)

lemma cells_ok_empty_index: "cells_ok (heap empty_index)"
  by (simp add: empty_index_def cells_ok_def local_ok_def new_value_def fcard_fempty)

lemma cells_ok_new_index: "cells_ok (heap (new_index rows))"
  by (simp add: new_index_def cells_ok_build_groups cells_ok_empty_index split: list.splits)

text \<open>Claim C3. After every sequence of public mutations of an index built by the
  constructor, the local contribution stored in every record of the tree is
  \<open>max(0, |rhs_values| - 1)\<close>: 0 for an empty set, the size of the set minus one
  otherwise, for both kinds.\<close>

theorem C3_local_law: "local_law (run ms (new_index rows))"
  using cells_ok_run [OF cells_ok_new_index, of ms rows]
  by (simp add: local_law_def cells_ok_def list_all_iff)


section \<open>Evaluation of the scenarios\<close>

lemma heap_of_nth: "a < length vs \<Longrightarrow> heap_of vs a = vs ! a"
  by (simp add: heap_of_def)

lemma heap_of_upd: "a < length vs \<Longrightarrow> (heap_of vs)(a := v) = heap_of (vs[a := v])"
  by (auto simp: heap_of_def fun_eq_iff)

lemma heap_of_alloc: "a = length vs \<Longrightarrow> (heap_of vs)(a := v) = heap_of (vs @ [v])"
  by (auto simp: heap_of_def fun_eq_iff nth_append)

lemma empty_index_ix: "empty_index = ix (BTreeNode True [] []) [] 0"
  by (simp add: empty_index_def ix_def heap_of_def fun_eq_iff)

lemmas ev = insert_entry_for_validation_def delete_entry_for_validation_def ensure_key_def
  insert_fd_def insert_od_def delete_fd_def delete_od_def erase_rhs_def recompute_min_max_def
  recompute_step_def remove_key_def insert_key_def update_entry_for_validation_def
  ix_def insert_value_def btree_insert_def btree_t_def split_child_def split_left_def
  split_right_def scan_less_back_def Let_def new_value_def bv_def set_local_def set_flag_def
  flag_against_def right_entry_def left_entry_def track_rhs_def local_violation_count_def
  compute_od_boundary_flag_def total_delta_def heap_of_nth heap_of_upd heap_of_alloc
  fcard_finsert_if fcard_fempty no_deltas_def

lemmas run_steps = run_def fold_simps apply_mutation.simps id_apply comp_apply snd_conv fst_conv











text \<open>Two FD inserts for the key 1, then its removal by \<^verbatim>\<open>remove_key\<close>.\<close>

lemma fd_pair_step1:
  "insert_entry_for_validation [1] [10] FD (ix (BTreeNode True [] []) [] 0 :: (int list, int) BTreeIndex)
   = (no_deltas, ix (BTreeNode True [([1], 0)] []) [bv 0 0 [10] None None 0 0] 0)"
  by (simp add: ev)

lemma fd_pair_step2:
  "insert_entry_for_validation [1] [11] FD
     (ix (BTreeNode True [([1], 0)] []) [bv 0 0 [10] None None 0 0] 0 :: (int list, int) BTreeIndex)
   = (\<lparr>flag_delta = 0, local_violation_count_delta = 1\<rparr>,
      ix (BTreeNode True [([1], 0)] []) [bv 0 0 [11, 10] None None 0 1] 1)"
  by (simp add: ev)

lemma fd_pair_index_eq:
  "fd_pair_index = ix (BTreeNode True [([1], 0)] []) [bv 0 0 [11, 10] None None 0 1] 1"
  by (simp only: fd_pair_index_def empty_index_ix run_steps fd_pair_step1 fd_pair_step2)

lemma fd_pair_remove:
  "remove_key [1] (ix (BTreeNode True [([1], 0)] []) [bv 0 0 [11, 10] None None 0 1] 1 :: (int list, int) BTreeIndex)
   = (True, ix (BTreeNode True [] []) [bv 0 0 [11, 10] None None 0 1] 1)"
  by (simp add: ev)

text \<open>Claim C1, at the failing input. After the FD inserts (1,10) and (1,11) the counter
  and the sum of the contributions are both 1. \<^verbatim>\<open>remove_key\<close> of the key 1 (its count
  is 0) then removes the record and returns true, and leaves the counter at 1, while the
  sum over the records of the tree is 0.\<close>

theorem C1_remove_key_keeps_counter:
  "global_violation_count fd_pair_index = 1
   \<and> contribution_sum fd_pair_index = 1
   \<and> fst (remove_key [1] fd_pair_index)
   \<and> all_entries (root (snd (remove_key [1] fd_pair_index))) = []
   \<and> global_violation_count (snd (remove_key [1] fd_pair_index)) = 1
   \<and> contribution_sum (snd (remove_key [1] fd_pair_index)) = 0
   \<and> \<not> counter_consistent (snd (remove_key [1] fd_pair_index))"
  by (simp only: fd_pair_index_eq fd_pair_remove snd_conv fst_conv)
    (simp add: ix_def contribution_sum_def counter_consistent_def heap_of_nth bv_def)

text \<open>Three OD inserts, then the delete of the pair of the middle key.\<close>

lemma od_middle_step1:
  "insert_entry_for_validation [1] [10] OD (ix (BTreeNode True [] []) [] 0 :: (int list, int) BTreeIndex)
   = (no_deltas, ix (BTreeNode True [([1], 0)] []) [bv 0 1 [10] (Some 10) (Some 10) 0 0] 0)"
  by (simp add: ev)

lemma od_middle_step2:
  "insert_entry_for_validation [2] [5] OD
     (ix (BTreeNode True [([1], 0)] []) [bv 0 1 [10] (Some 10) (Some 10) 0 0] 0 :: (int list, int) BTreeIndex)
   = (\<lparr>flag_delta = 1, local_violation_count_delta = 0\<rparr>,
      ix (BTreeNode True [([1], 0), ([2], 1)] [])
        [bv 0 1 [10] (Some 10) (Some 10) 1 0, bv 0 1 [5] (Some 5) (Some 5) 0 0] 1)"
  by (simp add: ev)

lemma od_middle_step3:
  "insert_entry_for_validation [3] [20] OD
     (ix (BTreeNode True [([1], 0), ([2], 1)] [])
        [bv 0 1 [10] (Some 10) (Some 10) 1 0, bv 0 1 [5] (Some 5) (Some 5) 0 0] 1 :: (int list, int) BTreeIndex)
   = (no_deltas,
      ix (BTreeNode True [([1], 0), ([2], 1), ([3], 2)] [])
        [bv 0 1 [10] (Some 10) (Some 10) 1 0, bv 0 1 [5] (Some 5) (Some 5) 0 0,
         bv 0 1 [20] (Some 20) (Some 20) 0 0] 1)"
  by (simp add: ev)

lemma od_middle_index_eq:
  "od_middle_index =
     ix (BTreeNode True [([1], 0), ([2], 1), ([3], 2)] [])
        [bv 0 1 [10] (Some 10) (Some 10) 1 0, bv 0 1 [5] (Some 5) (Some 5) 0 0,
         bv 0 1 [20] (Some 20) (Some 20) 0 0] 1"
  by (simp only: od_middle_index_def empty_index_ix run_steps od_middle_step1 od_middle_step2
      od_middle_step3)

lemma od_middle_delete:
  "delete_entry_for_validation [2] [5] OD
     (ix (BTreeNode True [([1], 0), ([2], 1), ([3], 2)] [])
        [bv 0 1 [10] (Some 10) (Some 10) 1 0, bv 0 1 [5] (Some 5) (Some 5) 0 0,
         bv 0 1 [20] (Some 20) (Some 20) 0 0] 1 :: (int list, int) BTreeIndex)
   = (no_deltas,
      ix (BTreeNode True [([1], 0), ([3], 2)] [])
        [bv 0 1 [10] (Some 10) (Some 10) 1 0, bv 0 1 [] (Some 5) (Some 5) 0 0,
         bv 0 1 [20] (Some 20) (Some 20) 0 0] 1)"
  by (simp add: ev)

text \<open>Claim C2, at the failing input. After the OD inserts (1,10), (2,5), (3,20) the
  boundary law holds (the flag of key 1 is 1, since 10 > 5). The delete of (2,5) empties
  the record of key 2, which is neither the first nor the last entry of its leaf, and
  removes it; no flag is recomputed. The keys 1 and 3 are now neighbours with
  \<open>max_rhs = 10\<close> and \<open>min_rhs = 20\<close>, and the flag contribution of key 1 is still 1.\<close>

theorem C2_delete_middle_keeps_flag:
  "boundary_law od_middle_index
   \<and> root (snd (delete_entry_for_validation [2] [5] OD od_middle_index))
       = BTreeNode True [([1], 0), ([3], 2)] []
   \<and> max_rhs (heap (snd (delete_entry_for_validation [2] [5] OD od_middle_index)) 0) = Some 10
   \<and> min_rhs (heap (snd (delete_entry_for_validation [2] [5] OD od_middle_index)) 2) = Some 20
   \<and> right_neighbor_flag_contribution
         (heap (snd (delete_entry_for_validation [2] [5] OD od_middle_index)) 0) = 1
   \<and> global_violation_count (snd (delete_entry_for_validation [2] [5] OD od_middle_index)) = 1
   \<and> \<not> boundary_law (snd (delete_entry_for_validation [2] [5] OD od_middle_index))"
  by (simp only: od_middle_index_eq od_middle_delete snd_conv)
    (simp add: ix_def boundary_law_def pair_ok_def heap_of_nth bv_def)

text \<open>The index built from the six keys 1 to 6: the third key is moved to the new root
  by the split of the full leaf.\<close>

lemma six_keys_index_eq:
  "six_keys_index =
     ix (BTreeNode False [([3], 2)]
           [BTreeNode True [([1], 0), ([2], 1)] [],
            BTreeNode True [([4], 3), ([5], 4), ([6], 5)] []])
        [bv 0 1 [] None None 0 0, bv 1 1 [] None None 0 0, bv 2 1 [] None None 0 0,
         bv 3 1 [] None None 0 0, bv 4 1 [] None None 0 0, bv 5 1 [] None None 0 0] 0"
  by (simp add: six_keys_index_def new_index_def empty_index_ix ev)
















section \<open>Where the tree functions look\<close>








section \<open>The entries of the tree under insertion and removal\<close>

lemma mset_concat_mid:
  "mset (concat (map f (xs @ y # zs))) =
     mset (concat (map f xs)) + mset (f y) + mset (concat (map f zs))"
  by simp

lemma mset_children_split:
  assumes "i < length cs"
  shows "mset (concat (map f cs)) =
       mset (concat (map f (take i cs))) + mset (f (cs ! i)) + mset (concat (map f (drop (Suc i) cs)))"
proof -
  have "take i cs @ cs ! i # drop (Suc i) cs = cs"
    using assms by (simp add: id_take_nth_drop [symmetric])
  then show ?thesis
    using mset_concat_mid [of f "take i cs" "cs ! i" "drop (Suc i) cs"] by simp
qed







lemma erase_key_subset: "mset (erase_key key es) \<subseteq># mset es"
proof (induction es)
  case Nil
  show ?case by simp
next
  case (Cons x es)
  have "mset es \<subseteq># add_mset x (mset es)" by simp
  then show ?case using Cons by auto
qed

lemma remove_from_node_entries:
  "mset (all_entries (remove_from_node key n)) \<subseteq># mset (all_entries n)"
proof (induction key n rule: remove_from_node.induct)
  case (1 key lf es cs)
  let ?i = "scan_greater key es"
  show ?case
  proof (cases "key \<in> fst ` set es")
    case True
    then show ?thesis by (simp add: erase_key_subset subset_mset.add_mono)
  next
    case notin: False
    show ?thesis
    proof (cases "\<not> lf \<and> ?i < length cs")
      case False
      then show ?thesis using notin by (auto simp: Let_def)
    next
      case True
      then have nl: "\<not> lf" and i: "?i < length cs" by auto
      let ?A = "mset (concat (map all_entries (take ?i cs)))"
      let ?B = "mset (concat (map all_entries (drop (Suc ?i) cs)))"
      have cs: "mset (concat (map all_entries cs)) = ?A + mset (all_entries (cs ! ?i)) + ?B"
        using i by (rule mset_children_split)
      have u: "mset (concat (map all_entries (cs[?i := remove_from_node key (cs ! ?i)]))) =
          ?A + mset (all_entries (remove_from_node key (cs ! ?i))) + ?B"
        using mset_children_split [of ?i "cs[?i := remove_from_node key (cs ! ?i)]" all_entries] i
        by simp
      from "1.IH" [OF notin nl refl i]
      have "mset (all_entries (remove_from_node key (cs ! ?i))) \<subseteq># mset (all_entries (cs ! ?i))" .
      then show ?thesis using notin nl i cs u by (simp add: Let_def subset_mset.add_mono)
    qed
  qed
qed

lemma remove_from_node_entries_set:
  "set (all_entries (remove_from_node key n)) \<subseteq> set (all_entries n)"
  using set_mset_mono [OF remove_from_node_entries [of key n]] by simp



section \<open>What the validator writes\<close>

lemma set_flag_other: "b \<noteq> a \<Longrightarrow> set_flag h a f b = h b"
  by (simp add: set_flag_def)

lemma set_flag_same_but_flags: "same_but_flags (h b) (set_flag h a f b)"
  by (simp add: set_flag_def same_but_flags_def)
























section \<open>Only the first component of the right-hand side\<close>



















section \<open>The recomputation of minimum and maximum\<close>





section \<open>The delete of a pair that is not tracked\<close>








section \<open>Insert after delete, delete after insert: FD\<close>














section \<open>Insert after delete: OD\<close>




















section \<open>Delete after insert\<close>













section \<open>The order of the keys\<close>

lemma ordered_node:
  "ordered (BTreeNode lf es cs) lo hi =
     (sorted_wrt (<) (map fst es) \<and> list_all (within lo hi) (map fst es)
      \<and> (\<not> lf \<longrightarrow> list_all2 child_ok cs (child_bounds lo hi (map fst es))))"
  by (simp add: list_all2_map1)










declare ordered.simps [simp del]







text \<open>The bounds of the children lie within the bounds of the node.\<close>

lemma bounds_inside:
  "sorted_wrt (<) ks \<Longrightarrow> list_all (within lo hi) ks \<Longrightarrow> (l, h) \<in> set (child_bounds lo hi ks)
     \<Longrightarrow> within l h x \<Longrightarrow> within lo hi x"
proof (induction ks arbitrary: lo)
  case Nil
  then show ?case by simp
next
  case (Cons k ks)
  have k: "within lo hi k" using Cons.prems(2) by simp
  show ?case
  proof (cases "(l, h) = (lo, Some k)")
    case True
    then show ?thesis using Cons.prems(4) k by (auto simp: within_def split: option.splits)
  next
    case False
    then have m: "(l, h) \<in> set (child_bounds (Some k) hi ks)" using Cons.prems(3) by auto
    have "list_all (within (Some k) hi) ks"
      using Cons.prems(1,2) by (auto simp: list_all_iff within_def split: option.splits)
    then have "within (Some k) hi x" using Cons.IH [OF _ _ m Cons.prems(4)] Cons.prems(1) by simp
    then show ?thesis using k by (auto simp: within_def split: option.splits)
  qed
qed

lemma list_all2_setD1: "list_all2 P xs ys \<Longrightarrow> x \<in> set xs \<Longrightarrow> \<exists>y\<in>set ys. P x y"
  by (induction rule: list_all2_induct) auto

lemma ordered_within:
  "ordered r lo hi \<Longrightarrow> e \<in> set (all_entries r) \<Longrightarrow> within lo hi (fst e)"
proof (induction r arbitrary: lo hi)
  case (BTreeNode lf es cs)
  have s: "sorted_wrt (<) (map fst es)" and w: "list_all (within lo hi) (map fst es)"
    using BTreeNode.prems(1) by (simp_all add: ordered_node)
  show ?case
  proof (cases "e \<in> set es")
    case True
    then show ?thesis using w by (simp add: list_all_iff)
  next
    case False
    then have nl: "\<not> lf" using BTreeNode.prems(2) by (auto split: if_splits)
    then obtain c where c: "c \<in> set cs" "e \<in> set (all_entries c)"
      using False BTreeNode.prems(2) by auto
    have a: "list_all2 child_ok cs (child_bounds lo hi (map fst es))"
      using nl BTreeNode.prems(1) by (simp add: ordered_node)
    from list_all2_setD1 [OF a c(1)]
    obtain b where b: "b \<in> set (child_bounds lo hi (map fst es))" "child_ok c b"
      by (elim bexE)
    have i: "within (fst b) (snd b) (fst e)" using c(1) b(2) c(2) by (rule BTreeNode.IH)
    have m: "(fst b, snd b) \<in> set (child_bounds lo hi (map fst es))" using b(1) by simp
    show ?thesis using s w m i by (rule bounds_inside)
  qed
qed










lemma within_above: "within lo hi k \<Longrightarrow> within (Some k) hi x \<Longrightarrow> within lo hi x"
  by (auto simp: within_def split: option.splits)

lemma within_below: "within lo hi k \<Longrightarrow> within lo (Some k) x \<Longrightarrow> within lo hi x"
  by (auto simp: within_def split: option.splits)




































text \<open>\<^verbatim>\<open>remove_key\<close> of a key held in an inner node leaves the node with as many children
  as before: in the index built from the keys 1 to 6, after \<^verbatim>\<open>remove_key\<close> of the key
  3 and \<^verbatim>\<open>insert_key\<close> of the key 7, the walk along the leaves does not ascend.\<close>

lemma remove_key_breaks_order:
  "leaf_walk (root (run [RemoveKey [3], InsertKey [7]] six_keys_index))
     = [[1], [2], [7], [4], [5], [6]]"
  by (simp only: six_keys_index_eq run_steps)
    (simp add: ix_def remove_key_def insert_key_def insert_value_def btree_insert_def
      new_value_def heap_of_nth bv_def leaf_walk_def scan_less_back_def btree_t_def Let_def)



text \<open>An ordered tree holds no key twice.\<close>

lemma concat_distinct:
  "sorted_wrt (<) ks \<Longrightarrow> list_all (within lo hi) ks \<Longrightarrow>
     list_all2 (\<lambda>xs b. distinct xs \<and> list_all (within (fst b) (snd b)) xs) xss
       (child_bounds lo hi ks) \<Longrightarrow>
     distinct (concat xss) \<and> list_all (within lo hi) (concat xss) \<and> set (concat xss) \<inter> set ks = {}"
proof (induction ks arbitrary: lo xss)
  case Nil
  then show ?case by (auto simp: list_all2_Cons2)
next
  case (Cons k ks)
  from Cons.prems(3) obtain xs xss' where x: "xss = xs # xss'"
    and xs: "distinct xs" "list_all (within lo (Some k)) xs"
    and r: "list_all2 (\<lambda>xs b. distinct xs \<and> list_all (within (fst b) (snd b)) xs) xss'
       (child_bounds (Some k) hi ks)"
    by (auto simp: list_all2_Cons2)
  have k: "within lo hi k" using Cons.prems(2) by simp
  have kk: "\<forall>y\<in>set ks. k < y" using Cons.prems(1) by simp
  have "list_all (within (Some k) hi) ks"
    using Cons.prems(1,2) by (auto simp: list_all_iff within_def split: option.splits)
  with Cons.prems(1) r
  have ih: "distinct (concat xss') \<and> list_all (within (Some k) hi) (concat xss')
      \<and> set (concat xss') \<inter> set ks = {}"
    by (intro Cons.IH) simp_all
  have lt: "\<forall>a\<in>set xs. a < k" using xs(2) by (simp add: list_all_iff within_def)
  have gt: "\<forall>b\<in>set (concat xss'). k < b" using ih by (simp add: list_all_iff within_def)
  have d: "set xs \<inter> set (concat xss') = {}" using lt gt by fastforce
  have w1: "list_all (within lo hi) xs"
    using xs(2) within_below [OF k] by (simp add: list_all_iff)
  have w2: "list_all (within lo hi) (concat xss')"
    using ih within_above [OF k] by (simp add: list_all_iff)
  have e1: "set xs \<inter> set (k # ks) = {}" using lt kk by fastforce
  have e2: "set (concat xss') \<inter> set (k # ks) = {}" using gt ih by fastforce
  have "distinct (xs @ concat xss')" using xs(1) ih d by simp
  moreover have "list_all (within lo hi) (xs @ concat xss')" using w1 w2 by simp
  moreover have "set (xs @ concat xss') \<inter> set (k # ks) = {}" using e1 e2 by (simp add: Int_Un_distrib2)
  ultimately show ?case by (simp only: x concat.simps) 
qed

lemma ordered_distinct: "ordered r lo hi \<Longrightarrow> distinct (map fst (all_entries r))"
proof (induction r arbitrary: lo hi)
  case (BTreeNode lf es cs)
  have s: "sorted_wrt (<) (map fst es)" and w: "list_all (within lo hi) (map fst es)"
    using BTreeNode.prems by (simp_all add: ordered_node)
  have d: "distinct (map fst es)" using s by (simp add: strict_sorted_iff)
  show ?case
  proof (cases lf)
    case True
    then show ?thesis using d by simp
  next
    case False
    have a: "list_all2 child_ok cs (child_bounds lo hi (map fst es))"
      using False BTreeNode.prems by (simp add: ordered_node)
    have "list_all2 (\<lambda>c b. distinct (map fst (all_entries c))
          \<and> list_all (within (fst b) (snd b)) (map fst (all_entries c)))
        cs (child_bounds lo hi (map fst es))"
      using a
    proof (rule list.rel_mono_strong)
      fix c b
      assume c: "c \<in> set cs" "child_ok c b"
      then have "distinct (map fst (all_entries c))" by (rule BTreeNode.IH)
      moreover have "list_all (within (fst b) (snd b)) (map fst (all_entries c))"
        using ordered_within [OF c(2)] by (simp add: list_all_iff)
      ultimately show "distinct (map fst (all_entries c))
          \<and> list_all (within (fst b) (snd b)) (map fst (all_entries c))" by simp
    qed
    then have "list_all2 (\<lambda>xs b. distinct xs \<and> list_all (within (fst b) (snd b)) xs)
        (map (\<lambda>c. map fst (all_entries c)) cs) (child_bounds lo hi (map fst es))"
      by (simp add: list_all2_map1)
    with s w have c: "distinct (concat (map (\<lambda>c. map fst (all_entries c)) cs))
        \<and> list_all (within lo hi) (concat (map (\<lambda>c. map fst (all_entries c)) cs))
        \<and> set (concat (map (\<lambda>c. map fst (all_entries c)) cs)) \<inter> set (map fst es) = {}"
      by (rule concat_distinct)
    have m: "map fst (concat (map all_entries cs)) = concat (map (\<lambda>c. map fst (all_entries c)) cs)"
      by (simp add: map_concat comp_def)
    have "distinct (map fst es @ map fst (concat (map all_entries cs)))"
      unfolding m using d c by (simp only: distinct_append) blast
    then show ?thesis using False by simp
  qed
qed

lemma ordered_keys_distinct: "ordered (root s) None None \<Longrightarrow> keys_distinct s"
  by (simp add: keys_distinct_def ordered_distinct)




section \<open>The round trip\<close>





end
